theory Spec2Isabelle
  imports Complex_Main "HOL-Library.Log_Nat"
begin

section \<open>Conventions of the embedding\<close>

text \<open>
  The program is \<open>seq.py\<close>. Python integers are unbounded and are modelled by \<open>int\<close>.
  Values held in numpy arrays range over the type \<open>fl\<close> below: a finite double is
  modelled by the real number it stands for, and the non-finite members follow the IEEE
  rules. Two kinds of division are kept apart: a division of Python floats raises
  \<open>ZeroDivisionError\<close> on a zero divisor, whereas a division of numpy values returns
  \<open>inf\<close> or \<open>nan\<close> (with a warning only) and the computation goes on.

  The conversion of a Python integer to a double is modelled exactly (section
  \<open>Doubles from integers\<close>): it rounds to 53 significant bits and raises
  \<open>OverflowError\<close> beyond the range of a double. The rounding of the other operations
  on doubles, and the \<open>cos\<close> and \<open>sin\<close> of the C library, are parameters of the
  model (the record \<open>platform\<close>) wherever the program computes the coordinates of the
  arcs. The vector and matrix operations of the tube are written without rounding;
  what is proved of them (counts, index ranges, non-finite entries) does not depend on
  it.
\<close>

datatype error = IndexError | ZeroDivisionError | ValueError | OverflowError | AttributeError

datatype fl = Num real | PosInf | NegInf | NaN

fun fl_finite :: "fl \<Rightarrow> bool" where
  "fl_finite (Num x) = True"
| "fl_finite PosInf = False"
| "fl_finite NegInf = False"
| "fl_finite NaN = False"

fun fl_neg :: "fl \<Rightarrow> fl" where
  "fl_neg (Num x) = Num (- x)"
| "fl_neg PosInf = NegInf"
| "fl_neg NegInf = PosInf"
| "fl_neg NaN = NaN"

fun fl_add :: "fl \<Rightarrow> fl \<Rightarrow> fl" where
  "fl_add (Num x) (Num y) = Num (x + y)"
| "fl_add (Num x) PosInf = PosInf"
| "fl_add (Num x) NegInf = NegInf"
| "fl_add (Num x) NaN = NaN"
| "fl_add PosInf (Num y) = PosInf"
| "fl_add PosInf PosInf = PosInf"
| "fl_add PosInf NegInf = NaN"
| "fl_add PosInf NaN = NaN"
| "fl_add NegInf (Num y) = NegInf"
| "fl_add NegInf PosInf = NaN"
| "fl_add NegInf NegInf = NegInf"
| "fl_add NegInf NaN = NaN"
| "fl_add NaN y = NaN"

definition fl_sub :: "fl \<Rightarrow> fl \<Rightarrow> fl" where
  "fl_sub x y = fl_add x (fl_neg y)"

fun fl_mul :: "fl \<Rightarrow> fl \<Rightarrow> fl" where
  "fl_mul (Num x) (Num y) = Num (x * y)"
| "fl_mul (Num x) PosInf = (if x = 0 then NaN else if 0 < x then PosInf else NegInf)"
| "fl_mul (Num x) NegInf = (if x = 0 then NaN else if 0 < x then NegInf else PosInf)"
| "fl_mul (Num x) NaN = NaN"
| "fl_mul PosInf (Num y) = (if y = 0 then NaN else if 0 < y then PosInf else NegInf)"
| "fl_mul PosInf PosInf = PosInf"
| "fl_mul PosInf NegInf = NegInf"
| "fl_mul PosInf NaN = NaN"
| "fl_mul NegInf (Num y) = (if y = 0 then NaN else if 0 < y then NegInf else PosInf)"
| "fl_mul NegInf PosInf = NegInf"
| "fl_mul NegInf NegInf = PosInf"
| "fl_mul NegInf NaN = NaN"
| "fl_mul NaN y = NaN"

text \<open>
  Division of numpy values. A zero divisor gives \<open>nan\<close> for a zero dividend and an
  infinity with the sign of the dividend otherwise: the two zero divisors of the
  program, \<open>1 + c\<close> and a norm, are positive zeros.
\<close>

fun fl_div :: "fl \<Rightarrow> fl \<Rightarrow> fl" where
  "fl_div (Num x) (Num y) =
     (if y \<noteq> 0 then Num (x / y)
      else if x = 0 then NaN else if 0 < x then PosInf else NegInf)"
| "fl_div (Num x) PosInf = Num 0"
| "fl_div (Num x) NegInf = Num 0"
| "fl_div (Num x) NaN = NaN"
| "fl_div PosInf (Num y) = (if 0 \<le> y then PosInf else NegInf)"
| "fl_div PosInf PosInf = NaN"
| "fl_div PosInf NegInf = NaN"
| "fl_div PosInf NaN = NaN"
| "fl_div NegInf (Num y) = (if 0 \<le> y then NegInf else PosInf)"
| "fl_div NegInf PosInf = NaN"
| "fl_div NegInf NegInf = NaN"
| "fl_div NegInf NaN = NaN"
| "fl_div NaN y = NaN"

fun fl_sqrt :: "fl \<Rightarrow> fl" where
  "fl_sqrt (Num x) = (if 0 \<le> x then Num (sqrt x) else NaN)"
| "fl_sqrt PosInf = PosInf"
| "fl_sqrt NegInf = NaN"
| "fl_sqrt NaN = NaN"

fun fl_abs :: "fl \<Rightarrow> fl" where
  "fl_abs (Num x) = Num \<bar>x\<bar>"
| "fl_abs PosInf = PosInf"
| "fl_abs NegInf = PosInf"
| "fl_abs NaN = NaN"

text \<open>A numpy array of three doubles, and a matrix as its three rows.\<close>

type_synonym vec3 = "fl \<times> fl \<times> fl"
type_synonym mat3 = "vec3 \<times> vec3 \<times> vec3"

section \<open>Doubles from integers\<close>

text \<open>
  Where Python converts an integer to a float (\<open>0.5 * n\<close>, \<open>x * n\<close>, \<open>x / n\<close> for a
  float \<open>x\<close> and an integer \<open>n\<close>) it rounds the integer to the nearest double, ties to
  the even significand, and raises \<open>OverflowError\<close> when the result is beyond the
  largest double. \<open>to_double n\<close> is the integer value of that double. A product of
  two doubles whose values are integers is rounded by the same rule, and \<open>int\<close> of an
  infinite product raises \<open>OverflowError\<close> too.
\<close>

definition bit_length :: "int \<Rightarrow> nat" where
  "bit_length n = nat (bitlen \<bar>n\<bar>)"

text \<open>\<open>m / 2 ^ e\<close> for \<open>m \<ge> 0\<close>, rounded to the nearest integer, ties to even.\<close>

definition round_half_even :: "int \<Rightarrow> nat \<Rightarrow> int" where
  "round_half_even m e =
     (let q = m div 2 ^ e;
          rest = m mod 2 ^ e
      in if 2 * rest < 2 ^ e then q
         else if 2 ^ e < 2 * rest then q + 1
         else if even q then q else q + 1)"

definition to_double :: "int \<Rightarrow> error + int" where
  "to_double n =
     (let m = \<bar>n\<bar>;
          e = bit_length n - 53;
          v = round_half_even m e * 2 ^ e
      in if 2 ^ 1024 \<le> v then Inl OverflowError else Inr (sgn n * v))"

definition in_double_range :: "int \<Rightarrow> bool" where
  "in_double_range n = (\<not> isl (to_double n))"

section \<open>The arithmetic of the platform\<close>

text \<open>
  \<open>fp_round\<close> gives the double that the platform returns for the exact result of an
  operation (an infinity on overflow), \<open>fp_cos\<close> and \<open>fp_sin\<close> are \<open>np.cos\<close> and
  \<open>np.sin\<close>, and \<open>np_float_alias\<close> says whether the installed numpy still has the name
  \<open>np.float\<close> (it was removed in numpy 1.24). Every theorem below holds for every
  platform.
\<close>

record platform =
  fp_round :: "real \<Rightarrow> fl"
  fp_cos :: "fl \<Rightarrow> fl"
  fp_sin :: "fl \<Rightarrow> fl"
  np_float_alias :: bool

definition fl_round :: "platform \<Rightarrow> fl \<Rightarrow> fl" where
  "fl_round P v = (case v of Num x \<Rightarrow> fp_round P x | _ \<Rightarrow> v)"

definition fp_add :: "platform \<Rightarrow> fl \<Rightarrow> fl \<Rightarrow> fl" where
  "fp_add P x y = fl_round P (fl_add x y)"

definition fp_sub :: "platform \<Rightarrow> fl \<Rightarrow> fl \<Rightarrow> fl" where
  "fp_sub P x y = fl_round P (fl_sub x y)"

definition fp_mul :: "platform \<Rightarrow> fl \<Rightarrow> fl \<Rightarrow> fl" where
  "fp_mul P x y = fl_round P (fl_mul x y)"

definition fp_div :: "platform \<Rightarrow> fl \<Rightarrow> fl \<Rightarrow> fl" where
  "fp_div P x y = fl_round P (fl_div x y)"

definition fp_of_int :: "platform \<Rightarrow> int \<Rightarrow> fl" where
  "fp_of_int P n = fp_round P (real_of_int n)"

text \<open>\<open>np.pi\<close> is the double nearest to \<open>pi\<close>.\<close>

definition np_pi :: "platform \<Rightarrow> fl" where
  "np_pi P = fp_round P pi"

text \<open>
  A platform that does not round, for the statements that need a closed term. The
  counts and the errors stated with it are those of every platform.
\<close>

definition exact_platform :: platform where
  "exact_platform =
     \<lparr>fp_round = Num,
      fp_cos = (\<lambda>v. case v of Num x \<Rightarrow> Num (cos x) | _ \<Rightarrow> NaN),
      fp_sin = (\<lambda>v. case v of Num x \<Rightarrow> Num (sin x) | _ \<Rightarrow> NaN),
      np_float_alias = True\<rparr>"

section \<open>Recaman's sequence (\<open>recemans_sequence\<close>)\<close>

text \<open>
  The loop of \<open>recemans_sequence\<close> carries the running value \<open>a\<close> and the list
  \<open>seq\<close>. One iteration, for the index \<open>i\<close>, tests \<open>(a - i) < 0 or (a - i) in seq\<close>,
  updates \<open>a\<close> and appends it.
\<close>

definition recaman_step :: "int \<times> int list \<Rightarrow> int \<Rightarrow> int \<times> int list" where
  "recaman_step st i =
     (case st of (a, seq) \<Rightarrow>
        let a' = (if a - i < 0 \<or> a - i \<in> set seq then a + i else a - i)
        in (a', seq @ [a']))"

text \<open>\<open>range(1, n)\<close> is the list \<open>[1..n - 1]\<close>, empty when \<open>n \<le> 1\<close>.\<close>

definition recaman_loop :: "int \<Rightarrow> int \<times> int list" where
  "recaman_loop n = foldl recaman_step (0, [0]) [1..n - 1]"

definition recemans_sequence :: "int \<Rightarrow> int list" where
  "recemans_sequence n = snd (recaman_loop n)"

section \<open>Arcs between consecutive terms (\<open>interpolate_arcs\<close>)\<close>

text \<open>
  The body of the loop is \<open>arc_point\<close>. Each operation on doubles is the exact
  operation followed by the rounding of the platform. \<open>u\<close> and \<open>r\<close> are halves of
  doubles with integer values and so are exact. Inside the loop \<open>0 < k\<close>, so that no
  division is by zero, and every integer converted there (\<open>t\<close>, \<open>i\<close>, \<open>k\<close>,
  \<open>a1 - a0\<close>, \<open>a0\<close>) is bounded by integers that the lines before the loop have
  converted already, so that no conversion raises.
\<close>

definition arc_point ::
  "platform \<Rightarrow> int \<Rightarrow> int \<Rightarrow> fl \<Rightarrow> real \<Rightarrow> real \<Rightarrow> real \<Rightarrow> int \<Rightarrow> int \<Rightarrow> vec3" where
  "arc_point P a0 a1 start_twist_degree twist_factor u r k i =
     (let flipped = (a0 > a1);
          t = (if flipped then k - i else i);
          deg = fp_mul P (np_pi P) (fp_sub P (Num 1.0) (fp_div P (fp_of_int P t) (fp_of_int P k)));
          z = fp_add P (fp_mul P (Num r) (fp_cos P deg)) (Num u);
          h = fl_abs (fp_mul P (Num r) (fp_sin P deg));
          s = fp_add P
                (fp_add P
                   (fp_mul P (fp_div P (fp_of_int P (a1 - a0)) (fp_of_int P k)) (fp_of_int P i))
                   (fp_of_int P a0))
                start_twist_degree;
          x = fp_mul P h (fp_cos P (fp_mul P s (Num twist_factor)));
          y = fp_mul P h (fp_sin P (fp_mul P s (Num twist_factor)))
      in (x, y, z))"

text \<open>
  The lines before the loop: \<open>u = 0.5 * (a0 + a1)\<close> converts the sum,
  \<open>r = 0.5 * abs(a1 - a0)\<close> converts the distance, and
  \<open>k = int(2 * r * resolution)\<close> converts the resolution, multiplies two doubles with
  integer values and converts the product back. Each of the four steps can raise
  \<open>OverflowError\<close>. \<open>range(k)\<close> is empty for \<open>k \<le> 0\<close>.
\<close>

definition interpolate_arcs ::
  "platform \<Rightarrow> int \<Rightarrow> int \<Rightarrow> fl \<Rightarrow> real \<Rightarrow> int \<Rightarrow> error + vec3 list" where
  "interpolate_arcs P a0 a1 start_twist_degree twist_factor resolution =
     (case to_double (a0 + a1) of Inl e \<Rightarrow> Inl e | Inr s \<Rightarrow>
      case to_double \<bar>a1 - a0\<bar> of Inl e \<Rightarrow> Inl e | Inr d \<Rightarrow>
      case to_double resolution of Inl e \<Rightarrow> Inl e | Inr res \<Rightarrow>
      case to_double (d * res) of Inl e \<Rightarrow> Inl e | Inr k \<Rightarrow>
        let u = 0.5 * real_of_int s;
            r = 0.5 * real_of_int d
        in Inr (map (arc_point P a0 a1 start_twist_degree twist_factor u r k) [0..k - 1]))"

section \<open>Vectors and matrices of numpy values\<close>

fun vec_add :: "vec3 \<Rightarrow> vec3 \<Rightarrow> vec3" where
  "vec_add (a0, a1, a2) (b0, b1, b2) = (fl_add a0 b0, fl_add a1 b1, fl_add a2 b2)"

fun vec_sub :: "vec3 \<Rightarrow> vec3 \<Rightarrow> vec3" where
  "vec_sub (a0, a1, a2) (b0, b1, b2) = (fl_sub a0 b0, fl_sub a1 b1, fl_sub a2 b2)"

fun vec_div :: "vec3 \<Rightarrow> fl \<Rightarrow> vec3" where
  "vec_div (a0, a1, a2) d = (fl_div a0 d, fl_div a1 d, fl_div a2 d)"

fun vec_mul :: "vec3 \<Rightarrow> fl \<Rightarrow> vec3" where
  "vec_mul (a0, a1, a2) d = (fl_mul a0 d, fl_mul a1 d, fl_mul a2 d)"

fun np_dot :: "vec3 \<Rightarrow> vec3 \<Rightarrow> fl" where
  "np_dot (a0, a1, a2) (b0, b1, b2) =
     fl_add (fl_add (fl_mul a0 b0) (fl_mul a1 b1)) (fl_mul a2 b2)"

fun np_cross :: "vec3 \<Rightarrow> vec3 \<Rightarrow> vec3" where
  "np_cross (a0, a1, a2) (b0, b1, b2) =
     (fl_sub (fl_mul a1 b2) (fl_mul a2 b1),
      fl_sub (fl_mul a2 b0) (fl_mul a0 b2),
      fl_sub (fl_mul a0 b1) (fl_mul a1 b0))"

text \<open>\<open>np.linalg.norm\<close> of a vector: the square root of its dot product with itself.\<close>

definition np_norm :: "vec3 \<Rightarrow> fl" where
  "np_norm v = fl_sqrt (np_dot v v)"

fun mat_add :: "mat3 \<Rightarrow> mat3 \<Rightarrow> mat3" where
  "mat_add (r0, r1, r2) (s0, s1, s2) = (vec_add r0 s0, vec_add r1 s1, vec_add r2 s2)"

fun mat_mul_scalar :: "mat3 \<Rightarrow> fl \<Rightarrow> mat3" where
  "mat_mul_scalar (r0, r1, r2) d = (vec_mul r0 d, vec_mul r1 d, vec_mul r2 d)"

fun mat_div_scalar :: "mat3 \<Rightarrow> fl \<Rightarrow> mat3" where
  "mat_div_scalar (r0, r1, r2) d = (vec_div r0 d, vec_div r1 d, vec_div r2 d)"

text \<open>\<open>c.dot(R)\<close> for a vector \<open>c\<close> and a matrix \<open>R\<close>: entry \<open>j\<close> is the sum of \<open>c[i] * R[i][j]\<close>.\<close>

fun vec_dot_mat :: "vec3 \<Rightarrow> mat3 \<Rightarrow> vec3" where
  "vec_dot_mat c ((r00, r01, r02), (r10, r11, r12), (r20, r21, r22)) =
     (np_dot c (r00, r10, r20), np_dot c (r01, r11, r21), np_dot c (r02, r12, r22))"

fun mat_dot :: "mat3 \<Rightarrow> mat3 \<Rightarrow> mat3" where
  "mat_dot (r0, r1, r2) m = (vec_dot_mat r0 m, vec_dot_mat r1 m, vec_dot_mat r2 m)"

definition identity3 :: mat3 where
  "identity3 = ((Num 1, Num 0, Num 0), (Num 0, Num 1, Num 0), (Num 0, Num 0, Num 1))"

text \<open>Finite vectors, and vectors and matrices without any finite entry.\<close>

fun vec_finite :: "vec3 \<Rightarrow> bool" where
  "vec_finite (x, y, z) = (fl_finite x \<and> fl_finite y \<and> fl_finite z)"

fun vec_no_finite :: "vec3 \<Rightarrow> bool" where
  "vec_no_finite (x, y, z) = (\<not> fl_finite x \<and> \<not> fl_finite y \<and> \<not> fl_finite z)"

fun mat_no_finite :: "mat3 \<Rightarrow> bool" where
  "mat_no_finite (r0, r1, r2) = (vec_no_finite r0 \<and> vec_no_finite r1 \<and> vec_no_finite r2)"

section \<open>The rotation onto an axis (\<open>rotation_matrix_from_vectors\<close>)\<close>

definition skew :: "vec3 \<Rightarrow> mat3" where
  "skew v = (case v of (v0, v1, v2) \<Rightarrow>
     ((Num 0, fl_neg v2, v1), (v2, Num 0, fl_neg v0), (fl_neg v1, v0, Num 0)))"

definition rotation_matrix_from_vectors :: "vec3 \<Rightarrow> vec3 \<Rightarrow> mat3" where
  "rotation_matrix_from_vectors a b =
     (let v = np_cross a b;
          c = np_dot a b;
          vx = skew v
      in mat_add (mat_add identity3 vx)
           (mat_div_scalar (mat_mul_scalar (mat_dot vx vx) (Num 1.0)) (fl_add (Num 1) c)))"

section \<open>The tube along a curve (\<open>circle_xy\<close>, \<open>tube_along_curve\<close>)\<close>

definition circle_xy :: "real \<Rightarrow> int \<Rightarrow> vec3 list" where
  "circle_xy radius resolution =
     map (\<lambda>i. let d = real_of_int i / real_of_int resolution * 2 * pi;
                   x = radius * cos d;
                   y = radius * sin d
               in (Num x, Num y, Num 0))
         [0..resolution - 1]"

text \<open>
  One ring of vertices: the tangent from \<open>p\<close> to \<open>q\<close> is normalised in place
  (\<open>v /= np.linalg.norm(v)\<close>, a numpy division), the circle is rotated by the matrix
  for that tangent and moved to \<open>base\<close>.
\<close>

definition ring :: "vec3 list \<Rightarrow> vec3 \<Rightarrow> vec3 \<Rightarrow> vec3 \<Rightarrow> vec3 list" where
  "ring circle p q base =
     (let v = vec_sub q p;
          v' = vec_div v (np_norm v);
          R = rotation_matrix_from_vectors v' (Num 0, Num 0, Num 1)
      in map (\<lambda>c. vec_add base (vec_dot_mat c R)) circle)"

type_synonym face = "int \<times> int \<times> int"

definition unravel :: "int \<Rightarrow> int \<Rightarrow> int \<Rightarrow> int \<Rightarrow> int \<Rightarrow> int \<Rightarrow> int" where
  "unravel n vertex_index_offset i j u v = (i + u) * n + (j + v) mod n + 1 + vertex_index_offset"

definition quad_faces :: "int \<Rightarrow> int \<Rightarrow> int \<Rightarrow> int \<Rightarrow> face list" where
  "quad_faces n vertex_index_offset i j =
     (let a = unravel n vertex_index_offset i j 0 0;
          b = unravel n vertex_index_offset i j 1 0;
          c = unravel n vertex_index_offset i j 1 1;
          d = unravel n vertex_index_offset i j 0 1
      in [(a, c, b), (a, d, c)])"

text \<open>
  The first loop runs over \<open>range(1, len(points))\<close> and is empty for fewer than two
  points; \<open>points[-1] - points[-2]\<close> after it raises \<open>IndexError\<close> exactly then. No
  other statement of the function raises.
\<close>

definition tube_along_curve ::
  "vec3 list \<Rightarrow> real \<Rightarrow> int \<Rightarrow> int \<Rightarrow> error + (vec3 list \<times> face list)" where
  "tube_along_curve points radius resolution vertex_index_offset =
     (let circle = circle_xy radius resolution;
          n = resolution;
          m = length points;
          vertex_list =
            concat (map (\<lambda>i. ring circle (points ! (i - 1)) (points ! i) (points ! (i - 1)))
                        [1..<m])
      in if m < 2 then Inl IndexError
         else
           let vertex_list' =
                 vertex_list @ ring circle (points ! (m - 2)) (points ! (m - 1)) (points ! (m - 1));
               face_list =
                 concat (map (\<lambda>i. concat (map (quad_faces n vertex_index_offset i) [0..n - 1]))
                             [0..int m - 1 - 1])
           in Inr (vertex_list', face_list))"

text \<open>
  The two lists that \<open>tube_along_curve\<close> returns for a curve of at least two points,
  named for the proofs: the rings of vertices and the faces for \<open>m\<close> points.
\<close>

definition tube_vertices :: "vec3 list \<Rightarrow> real \<Rightarrow> int \<Rightarrow> vec3 list" where
  "tube_vertices points radius resolution =
     concat (map (\<lambda>i. ring (circle_xy radius resolution) (points ! (i - 1)) (points ! i) (points ! (i - 1)))
                 [1..<length points])
     @ ring (circle_xy radius resolution) (points ! (length points - 2))
         (points ! (length points - 1)) (points ! (length points - 1))"

definition tube_faces :: "nat \<Rightarrow> int \<Rightarrow> int \<Rightarrow> face list" where
  "tube_faces m n off =
     concat (map (\<lambda>i. concat (map (quad_faces n off i) [0..n - 1])) [0..int m - 1 - 1])"


section \<open>The pipeline (\<open>main\<close>)\<close>

text \<open>
  The parsed command line. The output path only names the file that \<open>save_obj\<close>
  writes; the model of \<open>main\<close> returns the two lists handed to \<open>save_obj\<close>.
\<close>

record args =
  arg_n :: int
  arg_twist_factor :: real
  arg_arc_resolution :: int
  arg_tube_radius :: real
  arg_tube_resolution :: int
  arg_number_axis :: bool
  arg_number_axis_radius :: real
  arg_output :: string

text \<open>
  \<open>0 if i % 2 == 0 else np.pi / twist_factor\<close>: a division of Python floats.
\<close>

definition start_twist :: "platform \<Rightarrow> nat \<Rightarrow> real \<Rightarrow> error + fl" where
  "start_twist P i twist_factor =
     (if i mod 2 = 0 then Inr (Num 0)
      else if twist_factor = 0 then Inl ZeroDivisionError
      else Inr (fp_div P (np_pi P) (Num twist_factor)))"

fun curve_loop ::
  "platform \<Rightarrow> int list \<Rightarrow> real \<Rightarrow> int \<Rightarrow> nat list \<Rightarrow> vec3 list \<Rightarrow> error + vec3 list" where
  "curve_loop P seq twist_factor arc_resolution [] curve = Inr curve"
| "curve_loop P seq twist_factor arc_resolution (i # is) curve =
     (case start_twist P i twist_factor of
        Inl e \<Rightarrow> Inl e
      | Inr start_twist_degree \<Rightarrow>
          (case interpolate_arcs P (seq ! (i - 1)) (seq ! i) start_twist_degree
                  twist_factor arc_resolution of
             Inl e \<Rightarrow> Inl e
           | Inr arc \<Rightarrow> curve_loop P seq twist_factor arc_resolution is (curve @ arc)))"

text \<open>\<open>min\<close> and \<open>max\<close> of a list raise \<open>ValueError\<close> on the empty list.\<close>

fun py_min :: "int list \<Rightarrow> error + int" where
  "py_min [] = Inl ValueError"
| "py_min (x # xs) = Inr (fold min xs x)"

fun py_max :: "int list \<Rightarrow> error + int" where
  "py_max [] = Inl ValueError"
| "py_max (x # xs) = Inr (fold max xs x)"

text \<open>
  \<open>tube_along_curve\<close> as \<open>main\<close> calls it, with a resolution that is any integer of
  the command line. \<open>circle_xy\<close> runs first and divides \<open>float(i)\<close> by the resolution
  in its first iteration; the conversion of the resolution raises \<open>OverflowError\<close>
  beyond the range of a double, before any point of the curve is read.
\<close>

definition tube_call ::
  "vec3 list \<Rightarrow> real \<Rightarrow> int \<Rightarrow> int \<Rightarrow> error + (vec3 list \<times> face list)" where
  "tube_call points radius resolution vertex_index_offset =
     (if 0 < resolution \<and> \<not> in_double_range resolution then Inl OverflowError
      else tube_along_curve points radius resolution vertex_index_offset)"

text \<open>
  One end of the reference tube, \<open>np.array([0.0, 0.0, m], dtype=np.float)\<close> for an
  integer \<open>m\<close>: the name \<open>np.float\<close> is looked up, then the integer is converted.
\<close>

definition axis_end :: "platform \<Rightarrow> int \<Rightarrow> error + vec3" where
  "axis_end P m =
     (if \<not> np_float_alias P then Inl AttributeError
      else case to_double m of
             Inl e \<Rightarrow> Inl e
           | Inr d \<Rightarrow> Inr (Num 0.0, Num 0.0, Num (real_of_int d)))"

definition number_axis_tube ::
  "platform \<Rightarrow> int list \<Rightarrow> real \<Rightarrow> int \<Rightarrow> vec3 list \<times> face list
     \<Rightarrow> error + (vec3 list \<times> face list)" where
  "number_axis_tube P seq number_axis_radius tube_resolution mesh =
     (case mesh of (vertex_list, face_list) \<Rightarrow>
        case py_min seq of Inl e \<Rightarrow> Inl e | Inr lo \<Rightarrow>
        case axis_end P lo of Inl e \<Rightarrow> Inl e | Inr a \<Rightarrow>
        case py_max seq of Inl e \<Rightarrow> Inl e | Inr hi \<Rightarrow>
        case axis_end P hi of Inl e \<Rightarrow> Inl e | Inr b \<Rightarrow>
        case tube_call [a, b] number_axis_radius tube_resolution
               (int (length vertex_list)) of
          Inl e \<Rightarrow> Inl e
        | Inr (axis_vertices, axis_faces) \<Rightarrow>
            Inr (vertex_list @ axis_vertices, face_list @ axis_faces))"

definition main :: "platform \<Rightarrow> args \<Rightarrow> error + (vec3 list \<times> face list)" where
  "main P a =
     (let seq = recemans_sequence (arg_n a)
      in case curve_loop P seq (arg_twist_factor a) (arg_arc_resolution a)
                [1..<length seq] [] of
           Inl e \<Rightarrow> Inl e
         | Inr curve \<Rightarrow>
             (case tube_call curve (arg_tube_radius a) (arg_tube_resolution a) 0 of
                Inl e \<Rightarrow> Inl e
              | Inr mesh \<Rightarrow>
                  if arg_number_axis a
                  then number_axis_tube P seq (arg_number_axis_radius a)
                         (arg_tube_resolution a) mesh
                  else Inr mesh))"

text \<open>The default values of the command line.\<close>

definition default_args :: args where
  "default_args = \<lparr>arg_n = 50, arg_twist_factor = 0.2, arg_arc_resolution = 10,
     arg_tube_radius = 1.0, arg_tube_resolution = 8, arg_number_axis = True,
     arg_number_axis_radius = 1.0, arg_output = ''a.obj''\<rparr>"

section \<open>Properties of the conversion to doubles\<close>

text \<open>An integer below \<open>2 ^ 53\<close> in absolute value is a double: its conversion is exact.\<close>

lemma bit_length_le:
  assumes "\<bar>n\<bar> < 2 ^ 53"
  shows "bit_length n \<le> 53"
proof -
  have "nat \<bar>n\<bar> < 2 ^ 53" using assms by (simp add: nat_less_iff)
  then have "floorlog 2 (nat \<bar>n\<bar>) \<le> 53" by (simp add: floorlog_le_iff)
  then show ?thesis
    unfolding bit_length_def bitlen_def by simp
qed

lemma bit_length_eqI:
  assumes "2 ^ (w - 1) \<le> \<bar>n\<bar>" and "\<bar>n\<bar> < 2 ^ w" and "0 < w"
  shows "bit_length n = w"
proof -
  have lo: "2 ^ (w - 1) \<le> nat \<bar>n\<bar>"
    using assms(1) by (simp add: le_nat_iff)
  have hi: "nat \<bar>n\<bar> < 2 ^ w"
    using assms(2) by (simp add: nat_less_iff)
  have "floorlog 2 (nat \<bar>n\<bar>) \<le> w"
    using hi by (simp add: floorlog_le_iff)
  moreover have "w \<le> floorlog 2 (nat \<bar>n\<bar>)"
    using lo by (intro floorlog_geI) simp_all
  ultimately show ?thesis
    unfolding bit_length_def bitlen_def by simp
qed

lemma to_double_exact:
  assumes "\<bar>n\<bar> < 2 ^ 53"
  shows "to_double n = Inr n"
proof -
  have e: "bit_length n - 53 = 0" using bit_length_le [OF assms] by simp
  have "\<bar>n\<bar> < (2::int) ^ 1024"
    using assms by (rule less_trans) simp
  moreover have "sgn n * \<bar>n\<bar> = n" by (simp add: sgn_if)
  ultimately show ?thesis
    by (simp add: to_double_def Let_def e round_half_even_def)
qed

lemma in_double_range_small: "\<bar>n\<bar> < 2 ^ 53 \<Longrightarrow> in_double_range n"
  by (simp add: in_double_range_def to_double_exact)

lemma in_double_rangeE:
  assumes "in_double_range n"
  obtains d where "to_double n = Inr d"
  using assms by (cases "to_double n") (simp_all add: in_double_range_def)

lemma round_half_even_ge: "m div 2 ^ e \<le> round_half_even m e"
  by (simp add: round_half_even_def Let_def)

text \<open>An integer of absolute value \<open>2 ^ 1024\<close> or more is beyond the largest double.\<close>

lemma to_double_beyond:
  assumes "2 ^ 1024 \<le> \<bar>n\<bar>"
  shows "to_double n = Inl OverflowError"
proof -
  define m where "m = \<bar>n\<bar>"
  define b where "b = bit_length n"
  have m0: "0 < m" using assms by (simp add: m_def)
  have bb: "bitlen m = int b"
    by (simp add: b_def bit_length_def m_def bitlen_nonneg)
  have "nat (int b - 1) = b - 1" by arith
  with bitlen_bounds [OF m0] have lo: "2 ^ (b - 1) \<le> m" and hi: "m < 2 ^ b"
    by (simp_all add: bb)
  from assms hi have "(2::int) ^ 1024 < 2 ^ b" by (simp add: m_def)
  then have b: "1024 < b" by (rule power_less_imp_less_exp [rotated]) simp
  define e where "e = b - 53"
  have split: "b - 1 = 52 + e" using b by (simp add: e_def)
  have "(2::int) ^ 52 = (2 ^ 52 * 2 ^ e) div 2 ^ e" by simp
  also have "\<dots> = 2 ^ (b - 1) div 2 ^ e" by (simp only: split power_add)
  also have "\<dots> \<le> m div 2 ^ e" using lo by (intro zdiv_mono1) simp_all
  also have "\<dots> \<le> round_half_even m e" by (rule round_half_even_ge)
  finally have q: "(2::int) ^ 52 * 2 ^ e \<le> round_half_even m e * 2 ^ e"
    by (intro mult_right_mono) simp_all
  have "(2::int) ^ 1024 \<le> 2 ^ (b - 1)"
    using b by (intro power_increasing) simp_all
  also have "\<dots> = 2 ^ 52 * 2 ^ e"
    by (simp only: split power_add)
  also note q
  finally have "2 ^ 1024 \<le> round_half_even m e * 2 ^ e" .
  then show ?thesis
    by (simp add: to_double_def Let_def m_def [symmetric] b_def [symmetric] e_def [symmetric])
qed

text \<open>\<open>2 ^ 53 + 1\<close> lies half-way between two doubles and goes to the even one.\<close>

lemma to_double_tie: "to_double (2 ^ 53 + 1) = Inr (2 ^ 53)"
proof -
  have "bit_length (2 ^ 53 + 1) = 54"
    by (rule bit_length_eqI) simp_all
  then show ?thesis
    by (simp add: to_double_def Let_def round_half_even_def)
qed

lemma to_double_pow53: "to_double (2 ^ 53) = Inr (2 ^ 53)"
proof -
  have "bit_length (2 ^ 53) = 54"
    by (rule bit_length_eqI) simp_all
  then show ?thesis
    by (simp add: to_double_def Let_def round_half_even_def)
qed

section \<open>Properties of the sequence\<close>

lemma recaman_loop_base: "n \<le> 1 \<Longrightarrow> recaman_loop n = (0, [0])"
  by (simp add: recaman_loop_def)

lemma recaman_loop_next:
  assumes "1 \<le> n"
  shows "recaman_loop (n + 1) = recaman_step (recaman_loop n) n"
proof -
  have "[1..n] = [1..n - 1] @ [n]"
    using assms by (rule upto_rec2)
  then show ?thesis
    by (simp add: recaman_loop_def)
qed

lemma recaman_loop_Suc:
  "recaman_loop (int (Suc k) + 1) = recaman_step (recaman_loop (int k + 1)) (int k + 1)"
  using recaman_loop_next [of "int k + 1"] by (simp add: add.commute)

lemma recaman_step_snd:
  "snd (recaman_step (a, seq) i) = seq @ [fst (recaman_step (a, seq) i)]"
  by (simp add: recaman_step_def Let_def)

lemma recaman_step_fst:
  "fst (recaman_step (a, seq) i) = (if a - i < 0 \<or> a - i \<in> set seq then a + i else a - i)"
  by (simp add: recaman_step_def Let_def)

lemma recaman_loop_inv:
  "length (snd (recaman_loop (int k + 1))) = Suc k
   \<and> fst (recaman_loop (int k + 1)) = last (snd (recaman_loop (int k + 1)))
   \<and> (\<forall>x \<in> set (snd (recaman_loop (int k + 1))). 0 \<le> x)"
proof (induction k)
  case 0
  show ?case by (simp add: recaman_loop_base)
next
  case (Suc k)
  obtain a seq where st: "recaman_loop (int k + 1) = (a, seq)"
    by (cases "recaman_loop (int k + 1)")
  from Suc st have len: "length seq = Suc k" and a: "a = last seq"
    and nonneg: "\<forall>x \<in> set seq. 0 \<le> x"
    by simp_all
  from len have ne: "seq \<noteq> []" by auto
  with a have "a \<in> set seq" by simp
  with nonneg have a0: "0 \<le> a" by blast
  have "0 \<le> fst (recaman_step (a, seq) (int k + 1))"
    using a0 by (simp add: recaman_step_fst)
  then show ?case
    using len nonneg
    by (simp add: recaman_loop_Suc st recaman_step_snd del: of_nat_Suc)
qed

lemma recaman_loop_take:
  "k \<le> m \<Longrightarrow> take (Suc k) (snd (recaman_loop (int m + 1))) = snd (recaman_loop (int k + 1))"
proof (induction m)
  case 0
  then show ?case by (simp add: recaman_loop_base)
next
  case (Suc m)
  obtain a seq where st: "recaman_loop (int m + 1) = (a, seq)"
    by (cases "recaman_loop (int m + 1)")
  have len: "length seq = Suc m"
    using recaman_loop_inv [of m] st by simp
  show ?case
  proof (cases "k = Suc m")
    case True
    then show ?thesis
      using recaman_loop_inv [of "Suc m"] by simp
  next
    case False
    with Suc.prems have "k \<le> m" by simp
    with Suc.IH st have "take (Suc k) seq = snd (recaman_loop (int k + 1))" by simp
    moreover have "Suc k \<le> length seq" using \<open>k \<le> m\<close> len by simp
    ultimately show ?thesis
      by (simp add: recaman_loop_Suc st recaman_step_snd del: of_nat_Suc)
  qed
qed

lemma recemans_sequence_length: "1 \<le> n \<Longrightarrow> length (recemans_sequence n) = nat n"
  using recaman_loop_inv [of "nat (n - 1)"] by (simp add: recemans_sequence_def)

lemma recemans_sequence_nonneg: "x \<in> set (recemans_sequence n) \<Longrightarrow> 0 \<le> x"
proof (cases "1 \<le> n")
  case True
  assume "x \<in> set (recemans_sequence n)"
  then show ?thesis
    using recaman_loop_inv [of "nat (n - 1)"] True by (simp add: recemans_sequence_def)
next
  case False
  assume "x \<in> set (recemans_sequence n)"
  with False show ?thesis
    by (simp add: recemans_sequence_def recaman_loop_base)
qed

lemma recemans_sequence_take:
  assumes "int k < n"
  shows "take (Suc k) (recemans_sequence n) = snd (recaman_loop (int k + 1))"
proof -
  have "k \<le> nat (n - 1)" using assms by simp
  from recaman_loop_take [OF this] assms show ?thesis
    by (simp add: recemans_sequence_def)
qed

text \<open>
  The term at a positive index is what one iteration computes from the term before
  it and the terms generated so far.
\<close>

lemma recemans_sequence_nth_Suc:
  assumes "int (Suc j) < n"
  shows "recemans_sequence n ! Suc j =
           fst (recaman_step (recemans_sequence n ! j, take (Suc j) (recemans_sequence n))
                  (int (Suc j)))"
proof -
  let ?s = "recemans_sequence n"
  obtain a seq where st: "recaman_loop (int j + 1) = (a, seq)"
    by (cases "recaman_loop (int j + 1)")
  have seq: "take (Suc j) ?s = seq"
    using recemans_sequence_take [of j n] assms st by simp
  have len: "length seq = Suc j" and a: "a = last seq"
    using recaman_loop_inv [of j] st by simp_all
  have lens: "Suc j < length ?s"
    using assms recemans_sequence_length [of n] by simp
  have "a = seq ! j"
  proof -
    from len have "seq \<noteq> []" by auto
    then have "last seq = seq ! (length seq - 1)" by (rule last_conv_nth)
    with a len show ?thesis by simp
  qed
  also have "\<dots> = ?s ! j"
    using seq [symmetric] by simp
  finally have a': "a = ?s ! j" .
  have "take (Suc (Suc j)) ?s = snd (recaman_step (a, seq) (int j + 1))"
    using recemans_sequence_take [OF assms] by (simp add: recaman_loop_Suc st del: of_nat_Suc)
  then have "take (Suc (Suc j)) ?s = seq @ [fst (recaman_step (a, seq) (int j + 1))]"
    by (simp only: recaman_step_snd)
  then have "take (Suc (Suc j)) ?s ! Suc j = fst (recaman_step (a, seq) (int j + 1))"
    using len by (simp add: nth_append)
  then have "?s ! Suc j = fst (recaman_step (a, seq) (int j + 1))"
    by simp
  then show ?thesis
    using a' seq by (simp add: add.commute)
qed

lemma recemans_sequence_0: "recemans_sequence n ! 0 = 0"
proof (cases "1 \<le> n")
  case True
  then have "take (Suc 0) (recemans_sequence n) = [0]"
    using recemans_sequence_take [of 0 n] by (simp add: recaman_loop_base)
  then have "take (Suc 0) (recemans_sequence n) ! 0 = 0" by simp
  then show ?thesis by simp
next
  case False
  then show ?thesis by (simp add: recemans_sequence_def recaman_loop_base)
qed

lemma recemans_sequence_8: "recemans_sequence 8 = [0, 1, 3, 6, 2, 7, 13, 20]"
  by code_simp

subsection \<open>The claims on the sequence\<close>

text \<open>
  Claim C1, as amended. \<open>recemans_sequence 1\<close> is \<open>[0]\<close>, and \<open>recemans_sequence 8\<close> is
  \<open>[0, 1, 3, 6, 2, 7, 13, 20]\<close>, the first eight terms of OEIS A005132.
\<close>

theorem recemans_sequence_values:
  "recemans_sequence 1 = [0] \<and> recemans_sequence 8 = [0, 1, 3, 6, 2, 7, 13, 20]"
  by (simp add: recemans_sequence_8) (simp add: recemans_sequence_def recaman_loop_def)

text \<open>
  Claim C1 as the specification words it gives the list \<open>[0, 1, 3, 2, 7, 6, 13, 4]\<close>
  for eight terms. The function does not return that list.
\<close>

theorem recemans_sequence_8_not_spec_list:
  "recemans_sequence 8 \<noteq> [0, 1, 3, 2, 7, 6, 13, 4]"
  by (simp add: recemans_sequence_8)

text \<open>
  Claim C2. For \<open>n \<ge> 1\<close> and an index \<open>0 < i < n\<close>: when the difference of the
  previous term and \<open>i\<close> is not negative and is not among the first \<open>i\<close> terms, it is the
  term at \<open>i\<close>; otherwise the term at \<open>i\<close> is the previous term plus \<open>i\<close>.
\<close>

theorem recemans_sequence_step_rule:
  assumes "1 \<le> n" and "0 < i" and "int i < n"
  shows "recemans_sequence n ! i =
           (if 0 \<le> recemans_sequence n ! (i - 1) - int i
               \<and> recemans_sequence n ! (i - 1) - int i \<notin> set (take i (recemans_sequence n))
            then recemans_sequence n ! (i - 1) - int i
            else recemans_sequence n ! (i - 1) + int i)"
proof -
  from \<open>0 < i\<close> obtain j where i: "i = Suc j" by (cases i) auto
  with assms have "int (Suc j) < n" by simp
  from recemans_sequence_nth_Suc [OF this] show ?thesis
    unfolding i by (auto simp add: recaman_step_fst simp del: of_nat_Suc)
qed

theorem recemans_sequence_step_rule_witness:
  "(1::int) \<le> 8 \<and> (0::nat) < 4 \<and> int 4 < 8 \<and> recemans_sequence 8 ! 4 = 2
   \<and> recemans_sequence 8 ! 3 = 6 \<and> 2 \<notin> set (take 4 (recemans_sequence 8))"
  using recemans_sequence_step_rule [of 8 4] by (simp add: recemans_sequence_8)

text \<open>
  Claim C3. For \<open>n \<ge> 1\<close> the result has \<open>n\<close> terms and starts with 0; at every index
  \<open>0 < i < n\<close> the term differs from the one before it by exactly \<open>i\<close> and is not
  negative.
\<close>

theorem recemans_sequence_invariants:
  assumes "1 \<le> n"
  shows "length (recemans_sequence n) = nat n \<and> recemans_sequence n ! 0 = 0
         \<and> (\<forall>i. 0 < i \<and> int i < n \<longrightarrow>
               \<bar>recemans_sequence n ! i - recemans_sequence n ! (i - 1)\<bar> = int i
               \<and> 0 \<le> recemans_sequence n ! i)"
proof (intro conjI allI impI)
  show "length (recemans_sequence n) = nat n"
    using assms by (rule recemans_sequence_length)
  show "recemans_sequence n ! 0 = 0"
    by (rule recemans_sequence_0)
next
  fix i assume i: "0 < i \<and> int i < n"
  then obtain j where j: "i = Suc j" by (cases i) auto
  with i have lt: "int (Suc j) < n" by simp
  from recemans_sequence_nth_Suc [OF lt]
  show "\<bar>recemans_sequence n ! i - recemans_sequence n ! (i - 1)\<bar> = int i"
    unfolding j by (auto simp add: recaman_step_fst simp del: of_nat_Suc)
  have "i < nat n" using i by linarith
  then have "i < length (recemans_sequence n)"
    using assms by (simp add: recemans_sequence_length)
  then have "recemans_sequence n ! i \<in> set (recemans_sequence n)" by simp
  then show "0 \<le> recemans_sequence n ! i"
    by (rule recemans_sequence_nonneg)
qed

theorem recemans_sequence_invariants_witness:
  "(1::int) \<le> 8 \<and> length (recemans_sequence 8) = 8 \<and> recemans_sequence 8 ! 0 = 0
   \<and> \<bar>recemans_sequence 8 ! 4 - recemans_sequence 8 ! 3\<bar> = 4 \<and> 0 \<le> recemans_sequence 8 ! 4"
proof -
  have h: "(1::int) \<le> 8" by simp
  note inv = recemans_sequence_invariants [OF h]
  from inv have len: "length (recemans_sequence 8) = 8" by simp
  from inv have zero: "recemans_sequence 8 ! 0 = 0" by simp
  from inv have "0 < (4::nat) \<and> int 4 < 8 \<longrightarrow>
      \<bar>recemans_sequence 8 ! 4 - recemans_sequence 8 ! (4 - 1)\<bar> = int 4
      \<and> 0 \<le> recemans_sequence 8 ! 4" by blast
  then have "\<bar>recemans_sequence 8 ! 4 - recemans_sequence 8 ! 3\<bar> = 4
      \<and> 0 \<le> recemans_sequence 8 ! 4" by simp
  with h len zero show ?thesis by simp
qed

section \<open>Properties of the arcs\<close>

lemma interpolate_arcs_Inr:
  assumes "to_double (a0 + a1) = Inr s" and "to_double \<bar>a1 - a0\<bar> = Inr d"
    and "to_double r = Inr rs" and "to_double (d * rs) = Inr k"
  shows "interpolate_arcs P a0 a1 st tf r =
           Inr (map (arc_point P a0 a1 st tf (0.5 * real_of_int s) (0.5 * real_of_int d) k)
                  [0..k - 1])"
  using assms by (simp add: interpolate_arcs_def Let_def)

lemma interpolate_arcs_exact:
  assumes "0 < r" and "r * \<bar>a1 - a0\<bar> < 2 ^ 53"
    and "in_double_range (a0 + a1)" and "in_double_range r"
  shows "\<exists>ps. interpolate_arcs P a0 a1 st tf r = Inr ps \<and> length ps = nat (r * \<bar>a1 - a0\<bar>)"
proof -
  from assms(3) obtain s where s: "to_double (a0 + a1) = Inr s" by (rule in_double_rangeE)
  from assms(4) obtain rs where rs: "to_double r = Inr rs" by (rule in_double_rangeE)
  show ?thesis
  proof (cases "a1 = a0")
    case True
    have d: "to_double \<bar>a1 - a0\<bar> = Inr 0" and k: "to_double (0 * rs) = Inr 0"
      using True by (simp_all add: to_double_exact)
    from interpolate_arcs_Inr [OF s d rs k, of P st tf] True show ?thesis
      by simp
  next
    case False
    then have one: "1 \<le> \<bar>a1 - a0\<bar>" by simp
    have "\<bar>a1 - a0\<bar> * 1 \<le> \<bar>a1 - a0\<bar> * r"
      using assms(1) by (intro mult_left_mono) simp_all
    with assms(2) have dlt: "\<bar>a1 - a0\<bar> < 2 ^ 53" by (simp add: mult.commute)
    have "r * 1 \<le> r * \<bar>a1 - a0\<bar>"
      using assms(1) one by (intro mult_left_mono) simp_all
    then have "r \<le> r * \<bar>a1 - a0\<bar>" by simp
    from this assms(2) have "r < 2 ^ 53" by (rule le_less_trans)
    with assms(1) have rlt: "\<bar>r\<bar> < 2 ^ 53" by simp
    have d: "to_double \<bar>a1 - a0\<bar> = Inr \<bar>a1 - a0\<bar>"
      using dlt by (intro to_double_exact) simp
    have rs': "to_double r = Inr r"
      using rlt by (rule to_double_exact)
    have "\<bar>\<bar>a1 - a0\<bar> * r\<bar> < 2 ^ 53"
      using assms(1,2) by (simp add: abs_mult mult.commute)
    then have k: "to_double (\<bar>a1 - a0\<bar> * r) = Inr (\<bar>a1 - a0\<bar> * r)"
      by (rule to_double_exact)
    from interpolate_arcs_Inr [OF s d rs' k, of P st tf] show ?thesis
      by (simp add: mult.commute)
  qed
qed

text \<open>
  Claim C4, as amended. For integers \<open>a0\<close>, \<open>a1\<close> and a positive integer resolution
  \<open>r\<close> such that \<open>a0 + a1\<close> and \<open>r\<close> are within the range of a double and
  \<open>r * |a1 - a0|\<close> is below \<open>2 ^ 53\<close>, the function returns \<open>floor (r * |a1 - a0|)\<close>
  points, and none when the two ends are the same.
\<close>

theorem interpolate_arcs_count:
  assumes "0 < r" and "r * \<bar>a1 - a0\<bar> < 2 ^ 53"
    and "in_double_range (a0 + a1)" and "in_double_range r"
  shows "\<exists>ps. interpolate_arcs P a0 a1 start_twist_degree twist_factor r = Inr ps
           \<and> int (length ps) = \<lfloor>real_of_int r * \<bar>real_of_int a1 - real_of_int a0\<bar>\<rfloor>
           \<and> (a0 = a1 \<longrightarrow> ps = [])"
proof -
  from interpolate_arcs_exact [OF assms, of P start_twist_degree twist_factor]
  obtain ps where ps: "interpolate_arcs P a0 a1 start_twist_degree twist_factor r = Inr ps"
    and len: "length ps = nat (r * \<bar>a1 - a0\<bar>)"
    by blast
  have "real_of_int r * \<bar>real_of_int a1 - real_of_int a0\<bar> = real_of_int (r * \<bar>a1 - a0\<bar>)"
    by simp
  then have "\<lfloor>real_of_int r * \<bar>real_of_int a1 - real_of_int a0\<bar>\<rfloor> = r * \<bar>a1 - a0\<bar>"
    by (simp only: floor_of_int)
  moreover have "0 \<le> r * \<bar>a1 - a0\<bar>" using assms(1) by simp
  ultimately have "int (length ps) = \<lfloor>real_of_int r * \<bar>real_of_int a1 - real_of_int a0\<bar>\<rfloor>"
    using len by simp
  moreover have "a0 = a1 \<longrightarrow> ps = []"
    using len by auto
  ultimately show ?thesis
    using ps by blast
qed

lemma to_double_3: "in_double_range 3" and to_double_2: "in_double_range 2"
  and to_double_10: "in_double_range 10"
  by (simp_all add: in_double_range_small)

theorem interpolate_arcs_count_witness:
  "(0::int) < 2 \<and> (2::int) * \<bar>3 - 0\<bar> < 2 ^ 53 \<and> in_double_range (0 + 3) \<and> in_double_range 2
   \<and> map_sum id length (interpolate_arcs exact_platform 0 3 (Num 0) 1 2) = Inr 6
   \<and> (2::int) * \<bar>5 - 5\<bar> < 2 ^ 53 \<and> in_double_range (5 + 5)
   \<and> interpolate_arcs exact_platform 5 5 (Num 0) 1 2 = Inr []"
proof -
  have h1: "(0::int) < 2" and h2: "(2::int) * \<bar>3 - 0\<bar> < 2 ^ 53"
    and h3: "in_double_range (0 + 3)" and h4: "in_double_range 2"
    and h5: "(2::int) * \<bar>5 - 5\<bar> < 2 ^ 53" and h6: "in_double_range (5 + 5)"
    by (simp_all add: in_double_range_small)
  from interpolate_arcs_count [OF h1 h2 h3 h4, of exact_platform "Num 0" 1]
  obtain ps where ps: "interpolate_arcs exact_platform 0 3 (Num 0) 1 2 = Inr ps"
    and len: "int (length ps) = \<lfloor>real_of_int 2 * \<bar>real_of_int 3 - real_of_int 0\<bar>\<rfloor>"
    by blast
  from len have "length ps = 6" by simp
  then have a: "map_sum id length (interpolate_arcs exact_platform 0 3 (Num 0) 1 2) = Inr 6"
    by (simp only: ps map_sum.simps)
  from interpolate_arcs_count [OF h1 h5 h6 h4, of exact_platform "Num 0" 1]
  obtain qs where qs: "interpolate_arcs exact_platform 5 5 (Num 0) 1 2 = Inr qs"
    and e: "(5::int) = 5 \<longrightarrow> qs = []"
    by blast
  from e have "qs = []" by simp
  with qs have b: "interpolate_arcs exact_platform 5 5 (Num 0) 1 2 = Inr []"
    by (simp only:)
  from h1 h2 h3 h4 h5 h6 a b show ?thesis by (simp only: simp_thms)
qed

text \<open>
  Claim C4 as the specification words it ranges over every pair of integers. The
  count goes through doubles: for \<open>a0 = a1 = 2 ^ 1023\<close> the conversion of \<open>a0 + a1\<close>
  raises \<open>OverflowError\<close> where the claim has no point returned, and for the ends \<open>0\<close>
  and \<open>2 ^ 53 + 1\<close> with resolution 1 the function returns \<open>2 ^ 53\<close> points, one fewer
  than \<open>floor (r * |a1 - a0|)\<close>.
\<close>

theorem interpolate_arcs_count_beyond_doubles:
  "interpolate_arcs exact_platform (2 ^ 1023) (2 ^ 1023) (Num 0) 1 1 = Inl OverflowError
   \<and> map_sum id length (interpolate_arcs exact_platform 0 (2 ^ 53 + 1) (Num 0) 1 1)
       = Inr (2 ^ 53)"
proof
  show "interpolate_arcs exact_platform (2 ^ 1023) (2 ^ 1023) (Num 0) 1 1 = Inl OverflowError"
  proof -
    have "(2::int) ^ 1024 \<le> \<bar>2 ^ 1023 + 2 ^ 1023\<bar>" by simp
    then have "to_double (2 ^ 1023 + 2 ^ 1023) = Inl OverflowError"
      by (rule to_double_beyond)
    then show ?thesis
      unfolding interpolate_arcs_def by (simp only: sum.case)
  qed
  have one: "to_double 1 = Inr 1"
    by (rule to_double_exact) simp
  have s: "to_double (0 + (2 ^ 53 + 1)) = Inr (2 ^ 53)"
    by (simp only: add_0 to_double_tie)
  have d: "to_double \<bar>2 ^ 53 + 1 - 0\<bar> = Inr (2 ^ 53)"
  proof -
    have "\<bar>2 ^ 53 + 1 - 0\<bar> = (2 ^ 53 + 1 :: int)" by simp
    then show ?thesis by (simp only: to_double_tie)
  qed
  have k: "to_double (2 ^ 53 * 1) = Inr (2 ^ 53)"
    by (simp only: mult_1_right to_double_pow53)
  have n: "nat (2 ^ 53 - 1 - 0 + 1) = (2 ^ 53 :: nat)"
    by simp
  from interpolate_arcs_Inr [OF s d one k, of exact_platform "Num 0" 1]
  show "map_sum id length (interpolate_arcs exact_platform 0 (2 ^ 53 + 1) (Num 0) 1 1)
          = Inr (2 ^ 53)"
    by (simp only: map_sum.simps length_map length_upto n)
qed

section \<open>Properties of the tube\<close>

lemma fl_add_NaN_right [simp]: "fl_add x NaN = NaN" by (cases x) simp_all
lemma fl_mul_NaN_right [simp]: "fl_mul x NaN = NaN" by (cases x) simp_all
lemma fl_div_NaN_right [simp]: "fl_div x NaN = NaN" by (cases x) simp_all
lemma fl_sub_NaN_right [simp]: "fl_sub x NaN = NaN" by (simp add: fl_sub_def)
lemma fl_sub_NaN_left [simp]: "fl_sub NaN x = NaN" by (simp add: fl_sub_def)








lemma tube_along_curve_Inr:
  assumes "2 \<le> length points"
  shows "tube_along_curve points radius resolution off =
           Inr (tube_vertices points radius resolution, tube_faces (length points) resolution off)"
  using assms by (simp add: tube_along_curve_def Let_def tube_vertices_def tube_faces_def)

lemma tube_along_curve_Inl:
  assumes "length points < 2"
  shows "tube_along_curve points radius resolution off = Inl IndexError"
  using assms by (simp add: tube_along_curve_def Let_def)











section \<open>The two singular cases of the geometry\<close>

subsection \<open>Anti-parallel vectors\<close>

lemma fl_finite_Num: "fl_finite x \<Longrightarrow> \<exists>r. x = Num r"
  by (cases x) simp_all

lemma vec_finite_Num: "vec_finite v \<Longrightarrow> \<exists>x y z. v = (Num x, Num y, Num z)"
  by (cases v) (auto dest: fl_finite_Num)

text \<open>
  Claim C6, as amended. When the two vectors are finite and their dot product \<open>c\<close> is
  \<open>- 1\<close>, the function has no guard: it divides by \<open>1 + c = 0\<close>, raises nothing, and
  every entry of the matrix it returns is \<open>nan\<close> or an infinity.
\<close>

theorem rotation_antiparallel_no_finite:
  assumes "vec_finite a" and "vec_finite b" and "np_dot a b = Num (- 1)"
  shows "mat_no_finite (rotation_matrix_from_vectors a b)"
proof -
  from assms(1) obtain a0 a1 a2 where a: "a = (Num a0, Num a1, Num a2)"
    by (auto dest: vec_finite_Num)
  from assms(2) obtain b0 b1 b2 where b: "b = (Num b0, Num b1, Num b2)"
    by (auto dest: vec_finite_Num)
  from assms(3) have c: "fl_add (Num 1) (np_dot a b) = Num 0"
    by simp
  show ?thesis
    unfolding rotation_matrix_from_vectors_def Let_def c
    by (simp add: a b skew_def identity3_def fl_sub_def)
qed

theorem rotation_antiparallel_no_finite_witness:
  "vec_finite (Num 0, Num 0, Num (- 1)) \<and> vec_finite (Num 0, Num 0, Num 1)
   \<and> np_dot (Num 0, Num 0, Num (- 1)) (Num 0, Num 0, Num 1) = Num (- 1)
   \<and> mat_no_finite (rotation_matrix_from_vectors (Num 0, Num 0, Num (- 1)) (Num 0, Num 0, Num 1))"
proof -
  have h1: "vec_finite (Num 0, Num 0, Num (- 1))" and h2: "vec_finite (Num 0, Num 0, Num 1)"
    by simp_all
  have h3: "np_dot (Num 0, Num 0, Num (- 1)) (Num 0, Num 0, Num 1) = Num (- 1)" by simp
  from rotation_antiparallel_no_finite [OF h1 h2 h3] h1 h2 h3 show ?thesis by simp
qed


text \<open>
  Claim C6 as the specification words it asks for a well-defined half-turn when the
  vectors are anti-parallel. For \<open>(0, 0, - 1)\<close> and \<open>(0, 0, 1)\<close> the function returns
  the matrix whose nine entries are \<open>nan\<close>.
\<close>

theorem rotation_antiparallel_nan:
  "rotation_matrix_from_vectors (Num 0, Num 0, Num (- 1)) (Num 0, Num 0, Num 1)
     = ((NaN, NaN, NaN), (NaN, NaN, NaN), (NaN, NaN, NaN))"
  by (simp add: rotation_matrix_from_vectors_def Let_def skew_def identity3_def fl_sub_def)

subsection \<open>Coincident consecutive points\<close>













section \<open>Properties of the pipeline\<close>

text \<open>The terms grow at most quadratically: after \<open>k\<close> iterations none exceeds \<open>k * k\<close>.\<close>

lemma recaman_loop_bound:
  "\<forall>x \<in> set (snd (recaman_loop (int k + 1))). x \<le> int k * int k"
proof (induction k)
  case 0
  show ?case by (simp add: recaman_loop_base)
next
  case (Suc k)
  obtain a seq where st: "recaman_loop (int k + 1) = (a, seq)"
    by (cases "recaman_loop (int k + 1)")
  from Suc st have old: "\<forall>x \<in> set seq. x \<le> int k * int k" by simp
  have len: "length seq = Suc k" and a: "a = last seq"
    using recaman_loop_inv [of k] st by simp_all
  from len have "seq \<noteq> []" by auto
  with a have "a \<in> set seq" by simp
  with old have a_le: "a \<le> int k * int k" by blast
  have sq: "int k * int k \<le> (int k + 1) * (int k + 1)"
    by (simp add: algebra_simps)
  have new: "fst (recaman_step (a, seq) (int k + 1)) \<le> (int k + 1) * (int k + 1)"
    using a_le by (simp add: recaman_step_fst algebra_simps)
  have all: "\<forall>x \<in> set seq. x \<le> (int k + 1) * (int k + 1)"
    using old sq by (meson order_trans)
  have step: "snd (recaman_loop (int (Suc k) + 1)) = seq @ [fst (recaman_step (a, seq) (int k + 1))]"
    by (simp add: recaman_loop_Suc st recaman_step_snd del: of_nat_Suc)
  show ?case
    unfolding step using new all by (simp add: add.commute)
qed

lemma recemans_sequence_le:
  assumes "1 \<le> n" and "x \<in> set (recemans_sequence n)"
  shows "x \<le> (n - 1) * (n - 1)"
  using recaman_loop_bound [of "nat (n - 1)"] assms by (simp add: recemans_sequence_def)

lemma recemans_sequence_small:
  assumes "1 \<le> n" and "n \<le> 2 ^ 26" and "x \<in> set (recemans_sequence n)"
  shows "0 \<le> x \<and> x < 2 ^ 52"
proof -
  have "x \<le> (n - 1) * (n - 1)" using assms(1,3) by (rule recemans_sequence_le)
  also have "\<dots> \<le> (2 ^ 26 - 1) * (2 ^ 26 - 1)"
    using assms(1,2) by (intro mult_mono) simp_all
  also have "\<dots> < (2 ^ 52 :: int)" by simp
  finally show ?thesis using recemans_sequence_nonneg [OF assms(3)] by simp
qed


lemma arc_of_sequence:
  assumes "n \<le> 2 ^ 26" and "0 < res" and "res \<le> 2 ^ 26" and "int (Suc j) < n"
  shows "\<exists>arc. interpolate_arcs P (recemans_sequence n ! j) (recemans_sequence n ! Suc j)
                 st tf res = Inr arc
           \<and> length arc = nat (res * int (Suc j))"
proof -
  let ?s = "recemans_sequence n"
  have n1: "1 \<le> n" using assms(4) by simp
  have len: "length ?s = nat n" using n1 by (rule recemans_sequence_length)
  have "j < length ?s" and "Suc j < length ?s" using assms(4) len by simp_all
  then have m0: "?s ! j \<in> set ?s" and m1: "?s ! Suc j \<in> set ?s" by simp_all
  from recemans_sequence_small [OF n1 assms(1) m0] recemans_sequence_small [OF n1 assms(1) m1]
  have sum: "\<bar>?s ! j + ?s ! Suc j\<bar> < 2 ^ 53" by simp
  have diff: "\<bar>?s ! Suc j - ?s ! j\<bar> = int (Suc j)"
    using recemans_sequence_nth_Suc [OF assms(4)]
    by (auto simp add: recaman_step_fst simp del: of_nat_Suc)
  have "res * int (Suc j) \<le> 2 ^ 26 * 2 ^ 26"
    using assms by (intro mult_mono) simp_all
  also have "\<dots> < (2 ^ 53 :: int)" by simp
  finally have prod: "res * \<bar>?s ! Suc j - ?s ! j\<bar> < 2 ^ 53" by (simp only: diff)
  have r: "in_double_range res"
    using assms(2,3) by (intro in_double_range_small) simp
  from interpolate_arcs_exact [OF assms(2) prod in_double_range_small [OF sum] r, of P st tf]
  show ?thesis by (simp only: diff)
qed


lemma start_twist_Inr:
  assumes "tf \<noteq> 0"
  shows "\<exists>st. start_twist P i tf = Inr st"
  using assms by (simp add: start_twist_def)

lemma curve_loop_Inr:
  assumes "tf \<noteq> 0"
    and "\<And>i st. i \<in> set is \<Longrightarrow>
           \<exists>arc. interpolate_arcs P (seq ! (i - 1)) (seq ! i) st tf res = Inr arc"
  shows "\<exists>rest. curve_loop P seq tf res is curve = Inr (curve @ rest)"
  using assms(2)
proof (induction "is" arbitrary: curve)
  case Nil
  then show ?case by simp
next
  case (Cons i "is")
  from start_twist_Inr [OF assms(1)] obtain st where st: "start_twist P i tf = Inr st"
    by blast
  from Cons.prems [of i st] obtain arc
    where arc: "interpolate_arcs P (seq ! (i - 1)) (seq ! i) st tf res = Inr arc"
    by auto
  from Cons.IH [of "curve @ arc"] Cons.prems
  obtain rest where "curve_loop P seq tf res is (curve @ arc) = Inr ((curve @ arc) @ rest)"
    by auto
  then show ?case
    using arc by (simp add: st)
qed

lemma curve_loop_zero_twist:
  "curve_loop P seq 0 res (Suc 0 # is) curve = Inl ZeroDivisionError"
  by (simp add: start_twist_def)

lemma upt_1_Cons: "2 \<le> m \<Longrightarrow> [1..<m] = Suc 0 # [2..<m]"
  using upt_conv_Cons [of 1 m] by (simp add: numeral_2_eq_2)

lemma curve_of_sequence:
  assumes "2 \<le> n" and "n \<le> 2 ^ 26" and "tf \<noteq> 0" and "2 \<le> res" and "res \<le> 2 ^ 26"
  shows "\<exists>curve. curve_loop P (recemans_sequence n) tf res
                    [1..<length (recemans_sequence n)] [] = Inr curve
           \<and> 2 \<le> length curve"
proof -
  let ?s = "recemans_sequence n"
  have res0: "0 < res" using assms(4) by simp
  have len: "length ?s = nat n" using assms(1) by (simp add: recemans_sequence_length)
  then have two: "2 \<le> length ?s" using assms(1) by simp
  then have idx: "[1..<length ?s] = Suc 0 # [2..<length ?s]" by (rule upt_1_Cons)
  have arcs: "\<exists>arc. interpolate_arcs P (?s ! (i - 1)) (?s ! i) st tf res = Inr arc"
    if "i \<in> set [2..<length ?s]" for i st
  proof -
    from that have i2: "2 \<le> i" and il: "i < length ?s" by simp_all
    from i2 obtain j where i: "i = Suc j" by (cases i) auto
    from il have "int (Suc j) < n" using len i by simp
    from arc_of_sequence [OF assms(2) res0 assms(5) this, of P st tf] show ?thesis
      unfolding i by auto
  qed
  from start_twist_Inr [OF assms(3)] obtain st where st: "start_twist P (Suc 0) tf = Inr st"
    by blast
  have "int (Suc 0) < n" using assms(1) by simp
  from arc_of_sequence [OF assms(2) res0 assms(5) this, of P st tf]
  obtain arc where arc: "interpolate_arcs P (?s ! 0) (?s ! Suc 0) st tf res = Inr arc"
    and la: "length arc = nat (res * int (Suc 0))"
    by blast
  from curve_loop_Inr [OF assms(3), of "[2..<length ?s]" P ?s res "[] @ arc"] arcs
  obtain rest where rest: "curve_loop P ?s tf res [2..<length ?s] ([] @ arc)
      = Inr (([] @ arc) @ rest)"
    by blast
  have "curve_loop P ?s tf res [1..<length ?s] [] = Inr (arc @ rest)"
    unfolding idx using rest arc by (simp add: st)
  moreover have "2 \<le> length (arc @ rest)"
    using la assms(4) by simp
  ultimately show ?thesis by blast
qed

lemma tube_call_Inr:
  assumes "2 \<le> length points" and "resolution \<le> 0 \<or> in_double_range resolution"
  shows "tube_call points radius resolution off =
           Inr (tube_vertices points radius resolution, tube_faces (length points) resolution off)"
  using assms by (auto simp add: tube_call_def tube_along_curve_Inr)

lemma tube_call_Inl:
  assumes "length points < 2" and "resolution \<le> 0 \<or> in_double_range resolution"
  shows "tube_call points radius resolution off = Inl IndexError"
  using assms by (auto simp add: tube_call_def tube_along_curve_Inl)

lemma fold_min_in: "fold min xs (x::int) \<in> set (x # xs)"
proof (induction xs arbitrary: x)
  case Nil
  show ?case by simp
next
  case (Cons y ys)
  from Cons [of "min y x"] show ?case by (auto simp add: min_def split: if_splits)
qed

lemma fold_max_in: "fold max xs (x::int) \<in> set (x # xs)"
proof (induction xs arbitrary: x)
  case Nil
  show ?case by simp
next
  case (Cons y ys)
  from Cons [of "max y x"] show ?case by (auto simp add: max_def split: if_splits)
qed

lemma number_axis_tube_Inr:
  assumes "seq \<noteq> []" and "np_float_alias P" and "\<forall>x \<in> set seq. \<bar>x\<bar> < 2 ^ 53"
    and "resolution \<le> 0 \<or> in_double_range resolution"
  shows "\<exists>mesh'. number_axis_tube P seq radius resolution mesh = Inr mesh'"
proof -
  obtain x xs where seq: "seq = x # xs" using assms(1) by (cases seq) auto
  obtain V F where mesh: "mesh = (V, F)" by (cases mesh)
  have "\<bar>fold min xs x\<bar> < 2 ^ 53" and "\<bar>fold max xs x\<bar> < 2 ^ 53"
    using assms(3) fold_min_in [of xs x] fold_max_in [of xs x] unfolding seq by blast+
  then have lo: "to_double (fold min xs x) = Inr (fold min xs x)"
    and hi: "to_double (fold max xs x) = Inr (fold max xs x)"
    by (simp_all add: to_double_exact)
  show ?thesis
    using assms(2,4)
    by (simp add: number_axis_tube_def seq mesh axis_end_def lo hi tube_call_Inr)
qed


lemma main_short_sequence:
  assumes "arg_n a < 2"
    and "arg_tube_resolution a \<le> 0 \<or> in_double_range (arg_tube_resolution a)"
  shows "main P a = Inl IndexError"
proof -
  have "recemans_sequence (arg_n a) = [0]"
    using assms(1) by (simp add: recemans_sequence_def recaman_loop_base)
  moreover have "tube_call [] (arg_tube_radius a) (arg_tube_resolution a) 0 = Inl IndexError"
    using assms(2) by (intro tube_call_Inl) simp_all
  ultimately show ?thesis
    by (simp add: main_def Let_def)
qed

text \<open>
  The help text of \<open>--twist_factor\<close> reads \<open>0 is no twist\<close>. With at least two terms
  and a twist factor of zero, \<open>np.pi / twist_factor\<close> for the first arc raises
  \<open>ZeroDivisionError\<close> all the same.
\<close>

lemma main_zero_twist:
  assumes "2 \<le> arg_n a" and "arg_twist_factor a = 0"
  shows "main P a = Inl ZeroDivisionError"
proof -
  have "length (recemans_sequence (arg_n a)) = nat (arg_n a)"
    using assms(1) by (simp add: recemans_sequence_length)
  then have "2 \<le> length (recemans_sequence (arg_n a))"
    using assms(1) by simp
  then have idx: "[1..<length (recemans_sequence (arg_n a))]
      = Suc 0 # [2..<length (recemans_sequence (arg_n a))]"
    by (rule upt_1_Cons)
  show ?thesis
    unfolding main_def Let_def idx assms(2)
    by (simp only: curve_loop_zero_twist sum.case)
qed

lemma main_returns_mesh:
  assumes "2 \<le> arg_n a" and "arg_n a \<le> 2 ^ 26" and "arg_twist_factor a \<noteq> 0"
    and "2 \<le> arg_arc_resolution a" and "arg_arc_resolution a \<le> 2 ^ 26"
    and "arg_tube_resolution a \<le> 0 \<or> in_double_range (arg_tube_resolution a)"
    and "arg_number_axis a \<longrightarrow> np_float_alias P"
  shows "\<exists>mesh. main P a = Inr mesh"
proof -
  let ?seq = "recemans_sequence (arg_n a)"
  have n1: "1 \<le> arg_n a" using assms(1) by simp
  have "length ?seq = nat (arg_n a)" using n1 by (rule recemans_sequence_length)
  then have ne: "?seq \<noteq> []" using assms(1) by auto
  from curve_of_sequence [OF assms(1,2,3,4,5), of P]
  obtain curve where curve: "curve_loop P ?seq (arg_twist_factor a) (arg_arc_resolution a)
      [1..<length ?seq] [] = Inr curve"
    and two: "2 \<le> length curve"
    by blast
  from tube_call_Inr [OF two assms(6), of "arg_tube_radius a" 0]
  obtain mesh where tube: "tube_call curve (arg_tube_radius a) (arg_tube_resolution a) 0 = Inr mesh"
    by blast
  show ?thesis
  proof (cases "arg_number_axis a")
    case False
    then show ?thesis
      unfolding main_def Let_def curve using tube by simp
  next
    case True
    with assms(7) have npf: "np_float_alias P" by simp
    have small: "\<forall>x \<in> set ?seq. \<bar>x\<bar> < 2 ^ 53"
    proof
      fix x assume "x \<in> set ?seq"
      from recemans_sequence_small [OF n1 assms(2) this] show "\<bar>x\<bar> < 2 ^ 53" by simp
    qed
    from number_axis_tube_Inr [OF ne npf small assms(6), of "arg_number_axis_radius a" mesh]
    obtain mesh' where "number_axis_tube P ?seq (arg_number_axis_radius a)
        (arg_tube_resolution a) mesh = Inr mesh'"
      by blast
    then show ?thesis
      unfolding main_def Let_def curve using tube True by simp
  qed
qed

text \<open>
  Claim C8, as amended. \<open>main\<close> validates none of its arguments. With \<open>n < 2\<close> (so
  also with \<open>n < 1\<close>) and a tube resolution that is not positive or is within the range
  of a double, the curve is empty and \<open>tube_along_curve\<close> raises \<open>IndexError\<close>. With
  \<open>2 \<le> n \<le> 2 ^ 26\<close>, a twist factor other than zero, an arc resolution between \<open>2\<close>
  and \<open>2 ^ 26\<close>, such a tube resolution (every value below three is one) and
  \<open>np.float\<close> present when the number axis is drawn, \<open>main\<close> goes on to a mesh.
  Nothing is stated here for a twist factor of zero.
\<close>

theorem main_no_validation:
  "(arg_n a < 2 \<and> (arg_tube_resolution a \<le> 0 \<or> in_double_range (arg_tube_resolution a))
      \<longrightarrow> main P a = Inl IndexError)
   \<and> (2 \<le> arg_n a \<and> arg_n a \<le> 2 ^ 26 \<and> arg_twist_factor a \<noteq> 0
        \<and> 2 \<le> arg_arc_resolution a \<and> arg_arc_resolution a \<le> 2 ^ 26
        \<and> (arg_tube_resolution a \<le> 0 \<or> in_double_range (arg_tube_resolution a))
        \<and> (arg_number_axis a \<longrightarrow> np_float_alias P)
      \<longrightarrow> (\<exists>mesh. main P a = Inr mesh))"
  using main_short_sequence [of a P] main_returns_mesh [of a P] by blast

lemma default_args_fields:
  "arg_n default_args = 50" "arg_twist_factor default_args = 0.2"
  "arg_arc_resolution default_args = 10" "arg_tube_resolution default_args = 8"
  "arg_number_axis default_args = True"
  by (simp_all add: default_args_def)

theorem main_no_validation_witness:
  "arg_n (default_args\<lparr>arg_n := 0\<rparr>) < 2
   \<and> in_double_range (arg_tube_resolution (default_args\<lparr>arg_n := 0\<rparr>))
   \<and> main exact_platform (default_args\<lparr>arg_n := 0\<rparr>) = Inl IndexError
   \<and> 2 \<le> arg_n (default_args\<lparr>arg_tube_resolution := 2\<rparr>)
   \<and> arg_n (default_args\<lparr>arg_tube_resolution := 2\<rparr>) \<le> 2 ^ 26
   \<and> arg_twist_factor (default_args\<lparr>arg_tube_resolution := 2\<rparr>) \<noteq> 0
   \<and> 2 \<le> arg_arc_resolution (default_args\<lparr>arg_tube_resolution := 2\<rparr>)
   \<and> arg_arc_resolution (default_args\<lparr>arg_tube_resolution := 2\<rparr>) \<le> 2 ^ 26
   \<and> in_double_range (arg_tube_resolution (default_args\<lparr>arg_tube_resolution := 2\<rparr>))
   \<and> np_float_alias exact_platform
   \<and> (\<exists>mesh. main exact_platform (default_args\<lparr>arg_tube_resolution := 2\<rparr>) = Inr mesh)"
proof -
  have r8: "in_double_range 8" and r2: "in_double_range 2"
    by (simp_all add: in_double_range_small)
  have npf: "np_float_alias exact_platform" by (simp add: exact_platform_def)
  from main_no_validation [of "default_args\<lparr>arg_n := 0\<rparr>" exact_platform]
  have a: "main exact_platform (default_args\<lparr>arg_n := 0\<rparr>) = Inl IndexError"
    by (simp add: default_args_fields r8)
  from main_no_validation [of "default_args\<lparr>arg_tube_resolution := 2\<rparr>" exact_platform]
  have b: "\<exists>mesh. main exact_platform (default_args\<lparr>arg_tube_resolution := 2\<rparr>) = Inr mesh"
    by (simp add: default_args_fields r2 npf)
  from a b r8 r2 npf show ?thesis
    by (simp add: default_args_fields)
qed

text \<open>
  Claim C8 as the specification words it has a tube resolution below three and an
  \<open>n\<close> below one rejected before any mesh is built. With the default arguments and
  \<open>--tube_resolution 2\<close>, \<open>main\<close> returns a mesh; with \<open>-n 0\<close> it ends with the
  \<open>IndexError\<close> of \<open>tube_along_curve\<close>.
\<close>

theorem main_accepts_tube_resolution_2:
  "\<not> isl (main exact_platform (default_args\<lparr>arg_tube_resolution := 2\<rparr>))
   \<and> main exact_platform (default_args\<lparr>arg_n := 0\<rparr>) = Inl IndexError"
proof
  have r2: "in_double_range 2" by (simp add: in_double_range_small)
  have npf: "np_float_alias exact_platform" by (simp add: exact_platform_def)
  have "\<exists>mesh. main exact_platform (default_args\<lparr>arg_tube_resolution := 2\<rparr>) = Inr mesh"
    by (rule main_returns_mesh) (simp_all add: default_args_fields r2 npf)
  then show "\<not> isl (main exact_platform (default_args\<lparr>arg_tube_resolution := 2\<rparr>))"
    by auto
  have r8: "in_double_range 8" by (simp add: in_double_range_small)
  show "main exact_platform (default_args\<lparr>arg_n := 0\<rparr>) = Inl IndexError"
    by (rule main_short_sequence) (simp_all add: default_args_fields r8)
qed

end
